theory Spec2Isabelle
  imports Main "HOL-Library.Word"
begin

unbundle bit_operations_syntax

section \<open>Byte spans and the DER primitive reader\<close>

text \<open>
  \<^verbatim>\<open>net::der::Input\<close> is a non-owning view (pointer and length) over bytes that are
  never written; it is modelled by the list of the bytes it views.
\<close>

type_synonym byte = "8 word"
type_synonym Input = "byte list"

text \<open>
  Modelled from the spec: the DER primitive reader (\<^verbatim>\<open>net::der::Parser\<close>, built on the
  cryptography library's \<^verbatim>\<open>CBS\<close> byte-string reader) is an external dependency whose
  code is not part of the analysed sources. The definitions of this section give its
  contract: tag-checked reads, sequence readers, raw TLV extraction and the
  "has more data" query, over definite-length DER with minimally encoded lengths of at
  most four octets.

  A tag is the pair of the identifier octet's class and constructed bits (mask
  \<open>0xe0\<close>) and the tag number. The reader packs the two into one unsigned word, the
  bits shifted to the top and the number (at most \<open>2^29 - 1\<close>) below, so two packed
  tags are equal exactly when the pairs are.
\<close>

datatype Tag = MkTag (tag_bits: byte) (tag_number: nat)

definition kInteger :: Tag where "kInteger = MkTag 0 0x02"
definition kBitString :: Tag where "kBitString = MkTag 0 0x03"
definition kNull :: Tag where "kNull = MkTag 0 0x05"
definition kOid :: Tag where "kOid = MkTag 0 0x06"
definition kSequence :: Tag where "kSequence = MkTag 0x20 0x10"

definition IsConstructed :: "Tag \<Rightarrow> bool" where
  "IsConstructed t = (tag_bits t AND 0x20 \<noteq> 0)"

text \<open>
  A base-128 integer (used by the high-tag-number form and by object identifiers): seven
  bits per octet, most significant first, the top bit set on every octet but the last.
  The accumulator is a 64-bit word in the reader; the guard \<open>v div 2 ^ 57 \<noteq> 0\<close>
  rejects before a shift could overflow it.
\<close>

fun parse_base128_integer :: "nat \<Rightarrow> byte list \<Rightarrow> (nat \<times> byte list) option" where
  "parse_base128_integer v [] = None"
| "parse_base128_integer v (b # cbs) =
     (if v div 2 ^ 57 \<noteq> 0 then None
      else if v = 0 \<and> b = 0x80 then None
      else if b AND 0x80 \<noteq> 0
        then parse_base128_integer (v * 128 + unat (b AND 0x7f)) cbs
        else Some (v * 128 + unat (b AND 0x7f), cbs))"

definition parse_asn1_tag :: "byte list \<Rightarrow> (Tag \<times> byte list) option" where
  "parse_asn1_tag cbs =
     (case cbs of
        [] \<Rightarrow> None
      | tag_byte # header \<Rightarrow>
          if tag_byte AND 0x1f = 0x1f then
            (case parse_base128_integer 0 header of
               None \<Rightarrow> None
             | Some (v, header') \<Rightarrow>
                 if v > 0x1fffffff \<or> v < 0x1f then None
                 else Some (MkTag (tag_byte AND 0xe0) v, header'))
          else Some (MkTag (tag_byte AND 0xe0) (unat (tag_byte AND 0x1f)), header))"

text \<open>Big-endian value of a run of octets (\<^verbatim>\<open>cbs_get_u\<close>).\<close>

definition be_val :: "byte list \<Rightarrow> nat" where
  "be_val bs = foldl (\<lambda>r b. r * 256 + unat b) 0 bs"

text \<open>
  \<^verbatim>\<open>CBS_get_any_asn1_element\<close>: reads one element from the front of \<open>cbs\<close>. The result
  is the whole element (header and content), its tag, the length of its header and the
  bytes left after it.
\<close>

definition CBS_get_any_asn1_element ::
    "byte list \<Rightarrow> (byte list \<times> Tag \<times> nat \<times> byte list) option" where
  "CBS_get_any_asn1_element cbs =
     (case parse_asn1_tag cbs of
        None \<Rightarrow> None
      | Some (tag, header) \<Rightarrow>
          (case header of
             [] \<Rightarrow> None
           | length_byte # header' \<Rightarrow>
               let header_len = length cbs - length header' in
               if length_byte AND 0x80 = 0 then
                 let len = unat length_byte + header_len in
                 if len \<le> length cbs
                   then Some (take len cbs, tag, header_len, drop len cbs)
                   else None
               else
                 let num_bytes = unat (length_byte AND 0x7f) in
                 if num_bytes = 0 \<or> num_bytes > 4 then None
                 else if length header' < num_bytes then None
                 else
                   let len32 = be_val (take num_bytes header') in
                   if len32 < 128 then None
                   else if len32 div 2 ^ ((num_bytes - 1) * 8) = 0 then None
                   else
                     let len = len32 + header_len + num_bytes in
                     if len \<le> length cbs
                       then Some (take len cbs, tag, header_len + num_bytes, drop len cbs)
                       else None))"

text \<open>
  A parser is the bytes not yet consumed. (The reader also keeps the length of the
  element last peeked at; every read sets it before using it, so it carries nothing
  from one call to the next.)
\<close>

type_synonym Parser = "byte list"

definition HasMore :: "Parser \<Rightarrow> bool" where
  "HasMore p = (length p > 0)"

definition PeekTagAndValue :: "Parser \<Rightarrow> (Tag \<times> Input \<times> nat) option" where
  "PeekTagAndValue p =
     (case CBS_get_any_asn1_element p of
        None \<Rightarrow> None
      | Some (tmp_out, tag_value, header_len, _) \<Rightarrow>
          Some (tag_value, drop header_len tmp_out, length tmp_out))"

definition ReadTag :: "Tag \<Rightarrow> Parser \<Rightarrow> (Input \<times> Parser) option" where
  "ReadTag tag p =
     (case PeekTagAndValue p of
        None \<Rightarrow> None
      | Some (actual_tag, val, advance_len) \<Rightarrow>
          if actual_tag \<noteq> tag then None else Some (val, drop advance_len p))"

definition ReadRawTLV :: "Parser \<Rightarrow> (Input \<times> Parser) option" where
  "ReadRawTLV p =
     (case CBS_get_any_asn1_element p of
        None \<Rightarrow> None
      | Some (tmp_out, _, _, rest) \<Rightarrow> Some (tmp_out, rest))"

definition ReadConstructed :: "Tag \<Rightarrow> Parser \<Rightarrow> (Parser \<times> Parser) option" where
  "ReadConstructed tag p =
     (if \<not> IsConstructed tag then None else ReadTag tag p)"

definition ReadSequence :: "Parser \<Rightarrow> (Parser \<times> Parser) option" where
  "ReadSequence p = ReadConstructed kSequence p"

section \<open>The structural parsers\<close>

text \<open>
  Each parser returns its boolean together with the two out-parameters as the call
  leaves them; the values the out-parameters held before the call are arguments, since
  a failing call leaves untouched what it has not yet written.
\<close>

definition ParseAlgorithmIdentifier ::
    "Input \<Rightarrow> Input \<Rightarrow> Input \<Rightarrow> bool \<times> Input \<times> Input" where
  "ParseAlgorithmIdentifier input algorithm_oid parameters =
     (case ReadSequence input of
        None \<Rightarrow> (False, algorithm_oid, parameters)
      | Some (algorithm_identifier_parser, parser) \<Rightarrow>
          if HasMore parser then (False, algorithm_oid, parameters)
          else
            (case ReadTag kOid algorithm_identifier_parser of
               None \<Rightarrow> (False, algorithm_oid, parameters)
             | Some (oid, aip) \<Rightarrow>
                 if HasMore aip then
                   (case ReadRawTLV aip of
                      None \<Rightarrow> (False, oid, [])
                    | Some (params, aip') \<Rightarrow> (\<not> HasMore aip', oid, params))
                 else (\<not> HasMore aip, oid, [])))"

definition ParseAlgorithmSequence ::
    "Input \<Rightarrow> Input \<Rightarrow> Input \<Rightarrow> bool \<times> Input \<times> Input" where
  "ParseAlgorithmSequence input algorithm_oid parameters =
     (case ReadTag kOid input of
        None \<Rightarrow> (False, algorithm_oid, parameters)
      | Some (oid, parser) \<Rightarrow>
          if \<not> HasMore parser then (False, oid, parameters)
          else if HasMore parser then
            (case ReadRawTLV parser of
               None \<Rightarrow> (False, oid, [])
             | Some (params, parser') \<Rightarrow> (\<not> HasMore parser', oid, params))
          else (\<not> HasMore parser, oid, []))"

definition ParseSubjectPublicKeyInfo ::
    "Input \<Rightarrow> Input \<Rightarrow> Input \<Rightarrow> bool \<times> Input \<times> Input" where
  "ParseSubjectPublicKeyInfo input algorithm_sequence spk =
     (case ReadSequence input of
        None \<Rightarrow> (False, algorithm_sequence, spk)
      | Some (spki_parser, parser) \<Rightarrow>
          (case ReadTag kSequence spki_parser of
             None \<Rightarrow> (False, algorithm_sequence, spk)
           | Some (alg, spki_parser') \<Rightarrow>
               if \<not> HasMore spki_parser' then (False, alg, spk)
               else
                 (case ReadTag kBitString spki_parser' of
                    None \<Rightarrow> (False, alg, spk)
                  | Some (key, _) \<Rightarrow> (True, alg, key))))"

definition ParseRSAPublicKeyInfo ::
    "Input \<Rightarrow> Input \<Rightarrow> Input \<Rightarrow> bool \<times> Input \<times> Input" where
  "ParseRSAPublicKeyInfo input modulus public_exponent =
     (case ReadSequence input of
        None \<Rightarrow> (False, modulus, public_exponent)
      | Some (rsa_parser, parser) \<Rightarrow>
          (case ReadTag kInteger rsa_parser of
             None \<Rightarrow> (False, modulus, public_exponent)
           | Some (m, rsa_parser') \<Rightarrow>
               if \<not> HasMore rsa_parser' then (False, m, public_exponent)
               else
                 (case ReadTag kInteger rsa_parser' of
                    None \<Rightarrow> (False, m, public_exponent)
                  | Some (e, _) \<Rightarrow> (True, m, e))))"

definition IsNull :: "Input \<Rightarrow> bool" where
  "IsNull input =
     (case ReadTag kNull input of
        None \<Rightarrow> False
      | Some (null_value, parser) \<Rightarrow>
          if \<not> (length null_value = 0) then False
          else \<not> HasMore parser)"

section \<open>DER serialisation\<close>

text \<open>
  The writer that the round-trip and acceptance properties compare the parsers with: the
  minimal big-endian octets of a number, the DER length octets (short form below 128,
  long form otherwise) and a TLV with a one-octet identifier.
\<close>

function be_bytes :: "nat \<Rightarrow> byte list" where
  "be_bytes n = (if n = 0 then [] else be_bytes (n div 256) @ [of_nat (n mod 256)])"
  by pat_completeness auto
termination
  by (relation "measure (\<lambda>n. n)") auto

declare be_bytes.simps [simp del]

definition der_length :: "nat \<Rightarrow> byte list" where
  "der_length n =
     (if n < 128 then [of_nat n]
      else of_nat (128 + length (be_bytes n)) # be_bytes n)"

definition der_tlv :: "byte \<Rightarrow> byte list \<Rightarrow> byte list" where
  "der_tlv t v = t # der_length (length v) @ v"

text \<open>A span that is one raw TLV and nothing else, as the reader's raw extraction sees it.\<close>

definition single_TLV :: "Input \<Rightarrow> bool" where
  "single_TLV p =
     (case CBS_get_any_asn1_element p of
        None \<Rightarrow> False
      | Some (_, _, _, rest) \<Rightarrow> rest = [])"

text \<open>
  Re-serialising the two spans \<open>ParseAlgorithmIdentifier\<close> returns: the object
  identifier's content under an OID header (\<open>0x06\<close>), followed by the raw
  parameters TLV, inside a SEQUENCE header (\<open>0x30\<close>).
\<close>

definition serialize_AlgorithmIdentifier :: "Input \<Rightarrow> Input \<Rightarrow> byte list" where
  "serialize_AlgorithmIdentifier algorithm_oid parameters =
     der_tlv 0x30 (der_tlv 0x06 algorithm_oid @ parameters)"

text \<open>
  The wrapped AlgorithmIdentifier as the specification words it: one DER SEQUENCE with
  no bytes after it, whose content is one OID-tagged value optionally followed by
  exactly one raw TLV with no bytes remaining after it. The two bounds say that the
  lengths fit the reader's four length octets.
\<close>

definition AlgorithmIdentifier_DER :: "Input \<Rightarrow> Input \<Rightarrow> Input \<Rightarrow> bool" where
  "AlgorithmIdentifier_DER algorithm_oid parameters input =
     (input = serialize_AlgorithmIdentifier algorithm_oid parameters \<and>
      length algorithm_oid < 2 ^ 32 \<and>
      length (der_tlv 0x06 algorithm_oid @ parameters) < 2 ^ 32 \<and>
      (parameters = [] \<or> single_TLV parameters))"

section \<open>Embedded SCT extraction\<close>

text \<open>
  The three certificate-transparency primitives \<open>ExtractEmbeddedSCT\<close> calls are
  external; they are parameters of the model. The two that fill a buffer the caller
  reads only after success return \<open>None\<close> for \<^verbatim>\<open>false\<close>. The record decoder
  takes the freshly allocated entry and returns its flag together with the entry as
  the call leaves it, since the entry is appended whatever the flag.
\<close>

record ('cert, 'sct) ct_primitives =
  ExtractEmbeddedSCTList :: "'cert \<Rightarrow> byte list option"
  DecodeSCTList :: "byte list \<Rightarrow> byte list list option"
  DecodeSignedCertificateTimestamp :: "byte list \<Rightarrow> 'sct \<Rightarrow> bool \<times> 'sct"
  new_SignedCertificateTimestamp :: "'sct"

text \<open>The loop over the serialized records, with \<open>result\<close> and \<open>scts\<close> as its state.\<close>

fun decode_parsed_scts ::
    "('cert, 'sct) ct_primitives \<Rightarrow> byte list list \<Rightarrow> bool \<Rightarrow> 'sct list \<Rightarrow> bool \<times> 'sct list" where
  "decode_parsed_scts ct [] result scts = (result, scts)"
| "decode_parsed_scts ct (parsed_sct # parsed_scts) result scts =
     (let (ok, sct) = DecodeSignedCertificateTimestamp ct parsed_sct
                        (new_SignedCertificateTimestamp ct)
      in decode_parsed_scts ct parsed_scts (ok \<and> result) (scts @ [sct]))"

definition ExtractEmbeddedSCT ::
    "('cert, 'sct) ct_primitives \<Rightarrow> 'cert \<Rightarrow> 'sct list \<Rightarrow> bool \<times> 'sct list" where
  "ExtractEmbeddedSCT ct cert scts =
     (case ExtractEmbeddedSCTList ct cert of
        None \<Rightarrow> (False, scts)
      | Some sct_list \<Rightarrow>
          (case DecodeSCTList ct sct_list of
             None \<Rightarrow> (False, scts)
           | Some parsed_scts \<Rightarrow>
               if parsed_scts = [] then (False, scts)
               else decode_parsed_scts ct parsed_scts True scts))"

text \<open>
  A concrete instance of the primitives, for evaluating the extractor: a certificate is
  its extension bytes (none when empty); a list whose first byte is zero does not decode,
  any other decodes to one record per remaining byte; the record \<open>0xff\<close> does not
  decode and leaves the fresh entry, any other decodes to its byte's value.
\<close>

definition example_ct :: "(byte list, nat) ct_primitives" where
  "example_ct =
     \<lparr> ExtractEmbeddedSCTList = (\<lambda>cert. if cert = [] then None else Some cert),
       DecodeSCTList = (\<lambda>l. if hd l = 0 then None else Some (map (\<lambda>b. [b]) (tl l))),
       DecodeSignedCertificateTimestamp =
         (\<lambda>r s. if r = [0xff] then (False, s) else (True, unat (hd r))),
       new_SignedCertificateTimestamp = 0 \<rparr>"

section \<open>Object identifiers and the registry\<close>

text \<open>
  The registry of the cryptography library is external: its two lookups are parameters.
  \<open>OBJ_cbs2nid\<close> gives \<open>NID_undef\<close> for bytes it does not know; \<open>OBJ_nid2obj\<close>
  gives the object's encoded bytes, or \<open>None\<close> for the null pointer.
\<close>

record obj_registry =
  OBJ_cbs2nid :: "byte list \<Rightarrow> int"
  OBJ_nid2obj :: "int \<Rightarrow> byte list option"

definition NID_undef :: int where "NID_undef = 0"

text \<open>
  \<open>OIDToNID\<close>: the out-pointer is \<open>None\<close> when null, else \<open>Some\<close> of the value it
  points to. Initialising the library and clearing its error queue change nothing the
  function returns and are not modelled.
\<close>

definition OIDToNID :: "obj_registry \<Rightarrow> Input \<Rightarrow> int option \<Rightarrow> bool \<times> int option" where
  "OIDToNID reg input out =
     (case out of
        None \<Rightarrow> (False, None)
      | Some _ \<Rightarrow>
          let nid = OBJ_cbs2nid reg input in
          if nid \<noteq> NID_undef then (True, Some nid) else (False, Some (- 1)))"

text \<open>
  Modelled from the spec: the registry's text conversion (\<^verbatim>\<open>OBJ_obj2txt\<close> with the
  short name suppressed), which is external. It writes the canonical dotted-decimal
  form: the first base-128 integer gives the first two arcs, every further one an arc;
  the text is copied into the caller's buffer as \<^verbatim>\<open>strlcpy\<close> does, and its full
  length is returned, or \<open>-1\<close> when the bytes do not decode.
\<close>

function add_decimal :: "nat \<Rightarrow> string" where
  "add_decimal v =
     (if v < 10 then [''0123456789'' ! v]
      else add_decimal (v div 10) @ [''0123456789'' ! (v mod 10)])"
  by pat_completeness auto
termination
  by (relation "measure (\<lambda>v. v)") auto

declare add_decimal.simps [simp del]

lemma parse_base128_integer_shorter:
  "parse_base128_integer v cbs = Some (x, rest) \<Longrightarrow> length rest < length cbs"
  by (induction v cbs rule: parse_base128_integer.induct) (auto split: if_splits)

function oid_components_to_text :: "byte list \<Rightarrow> string option" where
  "oid_components_to_text copy =
     (if copy = [] then Some []
      else
        (case parse_base128_integer 0 copy of
           None \<Rightarrow> None
         | Some (v, copy') \<Rightarrow>
             (case oid_components_to_text copy' of
                None \<Rightarrow> None
              | Some txt \<Rightarrow> Some (CHR ''.'' # add_decimal v @ txt))))"
  by pat_completeness auto
termination
  by (relation "measure length") (auto dest: parse_base128_integer_shorter)

declare oid_components_to_text.simps [simp del]

definition CBS_asn1_oid_to_text :: "byte list \<Rightarrow> string option" where
  "CBS_asn1_oid_to_text cbs =
     (case parse_base128_integer 0 cbs of
        None \<Rightarrow> None
      | Some (v, copy) \<Rightarrow>
          (case oid_components_to_text copy of
             None \<Rightarrow> None
           | Some txt \<Rightarrow>
               Some ((if v \<ge> 80 then ''2.'' @ add_decimal (v - 80)
                      else add_decimal (v div 40) @ ''.'' @ add_decimal (v mod 40)) @ txt)))"

definition NUL :: char where "NUL = CHR 0x00"

definition strlcpy :: "string \<Rightarrow> string \<Rightarrow> nat \<Rightarrow> string" where
  "strlcpy dst src dst_size =
     (if dst_size = 0 then dst
      else
        let n = min (length src) (dst_size - 1)
        in take n src @ [NUL] @ drop (Suc n) dst)"

definition OBJ_obj2txt :: "string \<Rightarrow> nat \<Rightarrow> byte list \<Rightarrow> int \<times> string" where
  "OBJ_obj2txt out out_len obj =
     (if length obj = 0 then (0, strlcpy out [] out_len)
      else
        (case CBS_asn1_oid_to_text obj of
           None \<Rightarrow> (- 1, if out_len > 0 then out[0 := NUL] else out)
         | Some txt \<Rightarrow> (int (length txt), strlcpy out txt out_len)))"

text \<open>\<^verbatim>\<open>std::string::resize\<close>: cut to \<open>n\<close> characters, or padded with NUL up to \<open>n\<close>.\<close>

definition resize :: "string \<Rightarrow> nat \<Rightarrow> string" where
  "resize s n = take n s @ replicate (n - length s) NUL"

definition NIDToAbsoluteOID :: "obj_registry \<Rightarrow> Input \<Rightarrow> string" where
  "NIDToAbsoluteOID reg input =
     (case OIDToNID reg input (Some (- 1)) of
        (True, Some nid) \<Rightarrow>
          (case OBJ_nid2obj reg nid of
             None \<Rightarrow> []
           | Some object \<Rightarrow>
               let buffer = replicate 128 NUL;
                   (total_space, buffer') = OBJ_obj2txt buffer (length buffer) object
               in if total_space > 0 then resize buffer' (nat total_space) else [])
      | _ \<Rightarrow> [])"

text \<open>The registry that knows the RSA-encryption identifier alone, as number 6.\<close>

definition rsaEncryption_oid :: "byte list" where
  "rsaEncryption_oid = [0x2A, 0x86, 0x48, 0x86, 0xF7, 0x0D, 0x01, 0x01, 0x01]"

definition rsa_only_registry :: obj_registry where
  "rsa_only_registry =
     \<lparr> OBJ_cbs2nid = (\<lambda>bytes. if bytes = rsaEncryption_oid then 6 else NID_undef),
       OBJ_nid2obj = (\<lambda>nid. if nid = 6 then Some rsaEncryption_oid else None) \<rparr>"

section \<open>GeneralizedTime conversion\<close>

text \<open>
  A \<^verbatim>\<open>base::Time\<close> is a count of microseconds, and the default-constructed one is
  zero. The conversion primitive is external and a parameter: it takes the value its
  out-parameter holds and returns its flag with the value the call leaves there.
\<close>

type_synonym Time = int

definition generalized_time_to_time :: "('gt \<Rightarrow> Time \<Rightarrow> bool \<times> Time) \<Rightarrow> 'gt \<Rightarrow> Time" where
  "generalized_time_to_time GeneralizedTimeToTime generalized_time =
     (let time = 0;
          (_, time') = GeneralizedTimeToTime generalized_time time
      in time')"

section \<open>Properties of the reader\<close>

subsection \<open>Identifier and length octets\<close>

lemma split_byte: "(b AND 0xe0) OR (b AND 0x1f) = (b::byte)"
proof -
  have "b AND (0xe0 OR 0x1f) = (b AND 0xe0) OR (b AND 0x1f)"
    by (rule bit.conj_disj_distrib)
  moreover have m: "(0xe0 OR 0x1f :: byte) = - 1" by simp
  moreover have "b AND (0xe0 OR 0x1f) = b" unfolding m by simp
  ultimately show ?thesis by simp
qed

lemma unat_and_7f: "unat ((b::byte) AND 0x7f) = unat b mod 128"
proof -
  have "(0x7f :: byte) = mask 7" by (simp add: mask_eq_exp_minus_1)
  then have "b AND 0x7f = take_bit 7 b" by (simp add: take_bit_eq_mask)
  then show ?thesis by (simp add: take_bit_eq_mod unat_mod)
qed

lemma short_len_iff: "(b::byte) AND 0x80 = 0 \<longleftrightarrow> unat b < 128"
proof
  assume a: "b AND 0x80 = 0"
  have "b AND (0x80 OR 0x7f) = (b AND 0x80) OR (b AND 0x7f)"
    by (rule bit.conj_disj_distrib)
  moreover have m: "(0x80 OR 0x7f :: byte) = - 1" by simp
  moreover have "b AND (0x80 OR 0x7f) = b" unfolding m by simp
  ultimately have "b = b AND 0x7f" using a by simp
  then have "unat b = unat b mod 128" using unat_and_7f[of b] by simp
  then show "unat b < 128" by arith
next
  assume "unat b < 128"
  then have "b < 2 ^ 7" by (simp add: word_less_nat_alt)
  then have "b AND mask 7 = b" by (rule less_mask_eq)
  then have "b AND 0x80 = (b AND mask 7) AND 0x80" by simp
  also have "\<dots> = b AND (mask 7 AND 0x80)" by (simp only: and.assoc)
  also have "(mask 7 AND 0x80 :: byte) = 0" by (simp add: mask_eq_exp_minus_1)
  finally show "b AND 0x80 = 0" by simp
qed

lemma unat_byte_less: "unat (b::byte) < 256"
  using unsigned_less[of b, where ?'a = nat] by simp

lemma long_len_byte:
  assumes "(b::byte) AND 0x80 \<noteq> 0"
  shows "unat b = 128 + unat (b AND 0x7f)"
proof -
  from assms have "\<not> unat b < 128" by (simp add: short_len_iff)
  moreover have "unat b < 256" by (rule unat_byte_less)
  ultimately have ge: "128 \<le> unat b" and lt: "unat b - 128 < 128" by simp_all
  from ge have "unat b mod 128 = (unat b - 128) mod 128" by (rule le_mod_geq)
  also from lt have "\<dots> = unat b - 128" by (rule mod_less)
  finally have "unat b mod 128 = unat b - 128" .
  with ge show ?thesis unfolding unat_and_7f by linarith
qed


lemma long_len_enc:
  assumes "1 \<le> k" "k \<le> 4"
  shows "(of_nat (128 + k) :: byte) AND 0x80 \<noteq> 0"
    and "unat ((of_nat (128 + k) :: byte) AND 0x7f) = k"
proof -
  have u: "unat (of_nat (128 + k) :: byte) = 128 + k"
    unfolding unat_of_nat using assms by simp
  then show "(of_nat (128 + k) :: byte) AND 0x80 \<noteq> 0"
    by (simp add: short_len_iff)
  show "unat ((of_nat (128 + k) :: byte) AND 0x7f) = k"
    unfolding unat_and_7f u using assms by simp
qed

lemma short_len_enc:
  assumes "n < 128"
  shows "(of_nat n :: byte) AND 0x80 = 0" and "unat (of_nat n :: byte) = n"
proof -
  show u: "unat (of_nat n :: byte) = n" using assms by (simp add: unat_of_nat)
  then show "(of_nat n :: byte) AND 0x80 = 0" using assms by (simp add: short_len_iff)
qed

lemma be_val_Nil [simp]: "be_val [] = 0"
  by (simp add: be_val_def)

lemma be_val_snoc [simp]: "be_val (bs @ [b]) = be_val bs * 256 + unat b"
  by (simp add: be_val_def)

lemma be_val_be_bytes: "be_val (be_bytes n) = n"
proof (induction n rule: be_bytes.induct)
  case (1 n)
  show ?case
  proof (cases "n = 0")
    case True
    then show ?thesis by (simp add: be_bytes.simps)
  next
    case False
    have "unat (of_nat (n mod 256) :: byte) = n mod 256"
      by (simp add: unat_of_nat)
    with False 1 show ?thesis
      by (subst be_bytes.simps) simp
  qed
qed

lemma be_val_Cons: "be_val (b # bs) = unat b * 256 ^ length bs + be_val bs"
proof (induction bs rule: rev_induct)
  case Nil
  have "be_val ([] @ [b]) = unat b" by (simp only: be_val_snoc be_val_Nil)
  then show ?case by simp
next
  case (snoc x xs)
  have "be_val ((b # xs) @ [x]) = be_val (b # xs) * 256 + unat x"
    by (rule be_val_snoc)
  with snoc show ?case by (simp add: algebra_simps)
qed

lemma be_val_less: "be_val bs < 256 ^ length bs"
proof (induction bs)
  case Nil
  show ?case by simp
next
  case (Cons b bs)
  have "unat b * 256 ^ length bs \<le> 255 * 256 ^ length bs"
    using unat_byte_less[of b] by simp
  moreover have "be_val bs < 256 ^ length bs" by (rule Cons.IH)
  ultimately have "unat b * 256 ^ length bs + be_val bs < 255 * 256 ^ length bs + 256 ^ length bs"
    by (rule add_le_less_mono)
  then show ?case by (simp add: be_val_Cons)
qed

lemma be_val_div: "be_val (b # bs) div 256 ^ length bs = unat b"
  using be_val_less[of bs] by (simp add: be_val_Cons)


lemma be_val_single [simp]: "be_val [b] = unat b"
  by (simp add: be_val_def)

lemma be_bytes_0 [simp]: "be_bytes 0 = []"
  by (simp add: be_bytes.simps)

lemma be_bytes_pos: "0 < n \<Longrightarrow> be_bytes n = be_bytes (n div 256) @ [of_nat (n mod 256)]"
  by (subst be_bytes.simps) simp

lemma be_bytes_be_val: "bs \<noteq> [] \<Longrightarrow> hd bs \<noteq> 0 \<Longrightarrow> be_bytes (be_val bs) = bs"
proof (induction bs rule: rev_induct)
  case Nil
  then show ?case by simp
next
  case (snoc x xs)
  have x: "(of_nat (unat x) :: byte) = x" by simp
  have dm: "(be_val xs * 256 + unat x) div 256 = be_val xs"
    "(be_val xs * 256 + unat x) mod 256 = unat x"
    using unat_byte_less[of x] by simp_all
  show ?case
  proof (cases "xs = []")
    case True
    with snoc.prems have "x \<noteq> 0" by simp
    then have "0 < unat x" by (simp add: unat_gt_0)
    with True dm x show ?thesis by (simp add: be_bytes_pos)
  next
    case False
    with snoc have ih: "be_bytes (be_val xs) = xs" by simp
    with False have "be_val xs \<noteq> 0" by (metis be_bytes_0)
    then have "0 < be_val xs * 256 + unat x" by simp
    then have "be_bytes (be_val xs * 256 + unat x) =
        be_bytes ((be_val xs * 256 + unat x) div 256) @ [of_nat ((be_val xs * 256 + unat x) mod 256)]"
      by (rule be_bytes_pos)
    with dm ih x show ?thesis by simp
  qed
qed

lemma be_bytes_hd: "0 < n \<Longrightarrow> be_bytes n \<noteq> [] \<and> hd (be_bytes n) \<noteq> 0"
proof (induction n rule: be_bytes.induct)
  case (1 n)
  show ?case
  proof (cases "n div 256 = 0")
    case True
    with 1(2) have "n < 256" "n mod 256 = n" by (simp_all add: div_eq_0_iff)
    then have "unat (of_nat n :: byte) = n" by (simp add: unat_of_nat)
    with 1(2) have "(of_nat n :: byte) \<noteq> 0" by (metis unat_0 less_numeral_extra(3))
    with True 1(2) \<open>n mod 256 = n\<close> show ?thesis by (simp add: be_bytes_pos)
  next
    case False
    with 1 have "be_bytes (n div 256) \<noteq> [] \<and> hd (be_bytes (n div 256)) \<noteq> 0" by simp
    with 1(2) show ?thesis by (simp add: be_bytes_pos)
  qed
qed

lemma length_be_bytes: "n < 256 ^ k \<Longrightarrow> length (be_bytes n) \<le> k"
proof (induction n arbitrary: k rule: be_bytes.induct)
  case (1 n)
  show ?case
  proof (cases "n = 0")
    case True
    then show ?thesis by simp
  next
    case False
    with 1(2) obtain j where k: "k = Suc j" by (cases k) auto
    with 1(2) have "n div 256 < 256 ^ j" by (simp add: less_mult_imp_div_less)
    with 1(1) False have "length (be_bytes (n div 256)) \<le> j" by simp
    with False k show ?thesis by (simp add: be_bytes_pos)
  qed
qed

lemma be_bytes_top:
  assumes "0 < n"
  shows "n div 2 ^ ((length (be_bytes n) - 1) * 8) \<noteq> 0"
proof -
  from assms have ne: "be_bytes n \<noteq> []" and hd: "hd (be_bytes n) \<noteq> 0"
    using be_bytes_hd by simp_all
  then obtain b bs where bs: "be_bytes n = b # bs" by (cases "be_bytes n") auto
  with hd have "0 < unat b" by (simp add: unat_gt_0)
  moreover have "be_val (b # bs) div 256 ^ length bs = unat b" by (rule be_val_div)
  moreover have "be_val (b # bs) = n" using be_val_be_bytes[of n] bs by simp
  moreover have "(2::nat) ^ (length bs * 8) = (2 ^ 8) ^ length bs"
    by (metis mult.commute power_mult)
  then have "(2::nat) ^ (length bs * 8) = 256 ^ length bs" by simp
  ultimately show ?thesis using bs by simp
qed


lemma parse_asn1_tag_low:
  "t AND 0x1f \<noteq> 0x1f \<Longrightarrow>
   parse_asn1_tag (t # cbs) = Some (MkTag (t AND 0xe0) (unat (t AND 0x1f)), cbs)"
  by (simp add: parse_asn1_tag_def)

lemma parse_asn1_tag_inv:
  assumes "parse_asn1_tag cbs = Some (MkTag c n, header)" and "n < 0x1f"
  shows "cbs = (c OR of_nat n) # header"
proof -
  from assms obtain tb where cbs: "cbs = tb # header"
    and c: "c = tb AND 0xe0" and n: "n = unat (tb AND 0x1f)"
    by (auto simp: parse_asn1_tag_def split: list.splits if_splits option.splits)
  from n have "(of_nat n :: byte) = tb AND 0x1f" by simp
  with c have "c OR of_nat n = tb" by (simp add: split_byte)
  with cbs show ?thesis by simp
qed

lemma element_der_tlv:
  assumes t: "t AND 0x1f \<noteq> 0x1f" and len: "length v < 2 ^ 32"
  shows "CBS_get_any_asn1_element (der_tlv t v @ rest) =
    Some (der_tlv t v, MkTag (t AND 0xe0) (unat (t AND 0x1f)),
          Suc (length (der_length (length v))), rest)"
proof (cases "length v < 128")
  case True
  note short_len_enc[OF True, simp]
  from True show ?thesis
    by (simp add: CBS_get_any_asn1_element_def parse_asn1_tag_low[OF t] der_tlv_def
        der_length_def Let_def)
next
  case False
  define bs where "bs = be_bytes (length v)"
  define k where "k = length bs"
  from False have pos: "0 < length v" by (cases v) simp_all
  have k1: "1 \<le> k" using be_bytes_hd[OF pos] by (cases bs) (simp_all add: k_def bs_def)
  have "length v < 256 ^ 4" using len by simp
  then have k4: "k \<le> 4" unfolding k_def bs_def by (rule length_be_bytes)
  define lb :: byte where "lb = of_nat (128 + k)"
  have lb: "lb AND 0x80 \<noteq> 0" "unat (lb AND 0x7f) = k"
    unfolding lb_def by (rule long_len_enc[OF k1 k4])+
  have val: "be_val bs = length v" unfolding bs_def by (rule be_val_be_bytes)
  have top: "length v div 2 ^ ((k - 1) * 8) \<noteq> 0"
    unfolding k_def bs_def by (rule be_bytes_top[OF pos])
  have tk: "take k (bs @ v @ rest) = bs" by (simp add: k_def)
  have dl: "der_length (length v) = lb # bs"
    using False by (simp add: der_length_def k_def bs_def lb_def)
  have nk: "\<not> length bs + (length v + length rest) < k" by (simp add: k_def)
  have l: "length bs = k" by (simp add: k_def)
  from k1 k4 False val top tk nk l lb show ?thesis
    by (simp add: CBS_get_any_asn1_element_def parse_asn1_tag_low[OF t] der_tlv_def dl Let_def)
qed


lemma element_low_tag_inv:
  assumes el: "CBS_get_any_asn1_element cbs = Some (elem, MkTag c n, hl, rest)"
    and n: "n < 0x1f"
  shows "\<exists>v. length v < 2 ^ 32 \<and> cbs = der_tlv (c OR of_nat n) v @ rest \<and>
             elem = der_tlv (c OR of_nat n) v \<and> drop hl elem = v"
proof -
  from el obtain lb h where pt: "parse_asn1_tag cbs = Some (MkTag c n, lb # h)"
    by (auto simp: CBS_get_any_asn1_element_def Let_def
        split: option.splits list.splits if_splits)
  define t where "t = c OR of_nat n"
  from pt n have cbs: "cbs = t # lb # h" unfolding t_def by (rule parse_asn1_tag_inv)
  show ?thesis
  proof (cases "lb AND 0x80 = 0")
    case True
    define m where "m = unat lb"
    from el pt cbs True have r: "m \<le> length h" "elem = t # lb # take m h" "hl = 2"
        "rest = drop m h"
      by (auto simp: CBS_get_any_asn1_element_def Let_def m_def split: if_splits)
    from True have m: "m < 128" unfolding m_def by (simp add: short_len_iff)
    have "(of_nat m :: byte) = lb" by (simp add: m_def)
    with m r(1) have dl: "der_length (length (take m h)) = [lb]"
      by (simp add: der_length_def min_absorb2)
    have "length (take m h) < 2 ^ 32" using m r(1) by simp
    moreover have "cbs = der_tlv t (take m h) @ rest"
      unfolding der_tlv_def dl using cbs r by simp
    moreover have "elem = der_tlv t (take m h)"
      unfolding der_tlv_def dl using r by simp
    moreover have "drop hl elem = take m h" using r by simp
    ultimately show ?thesis unfolding t_def by blast
  next
    case False
    define k where "k = unat (lb AND 0x7f)"
    define bs where "bs = take k h"
    define m where "m = be_val bs"
    from el pt cbs False have r: "k \<noteq> 0" "k \<le> 4" "k \<le> length h" "128 \<le> m"
        "m div 2 ^ ((k - 1) * 8) \<noteq> 0" "m + k \<le> length h"
        "elem = t # lb # take (m + k) h" "hl = Suc (Suc k)" "rest = drop (m + k) h"
      by (auto simp: CBS_get_any_asn1_element_def Let_def k_def bs_def m_def add.commute
          split: if_splits)
    from r have lbs: "length bs = k" by (simp add: bs_def)
    with r(1) obtain b bs' where bbs: "bs = b # bs'" by (cases bs) auto
    with lbs have lbs': "length bs' = k - 1" by simp
    have "(2::nat) ^ ((k - 1) * 8) = (2 ^ 8) ^ (k - 1)" by (metis mult.commute power_mult)
    then have p: "(2::nat) ^ ((k - 1) * 8) = 256 ^ length bs'" by (simp add: lbs')
    have "m div 256 ^ length bs' = unat b" unfolding m_def bbs by (rule be_val_div)
    with r(5) p have "b \<noteq> 0" by (metis unat_0)
    with bbs have "be_bytes (be_val bs) = bs" by (intro be_bytes_be_val) simp_all
    then have bb: "be_bytes m = bs" by (simp add: m_def)
    from False have "unat lb = 128 + k" unfolding k_def by (rule long_len_byte)
    then have "(of_nat (128 + k) :: byte) = lb" by (metis of_nat_unat ucast_id)
    with r(4) bb lbs have dl: "der_length m = lb # bs" by (simp add: der_length_def)
    define v where "v = take m (drop k h)"
    from r(6) have lv: "length v = m" by (simp add: v_def)
    have hv: "take (m + k) h = bs @ v"
      unfolding bs_def v_def by (simp add: take_add add.commute)
    have "h = take (m + k) h @ drop (m + k) h" by simp
    also have "\<dots> = (bs @ v) @ rest" by (simp only: hv r(9))
    finally have hh: "h = bs @ v @ rest" by simp
    have "m < 256 ^ length bs" unfolding m_def by (rule be_val_less)
    also have "\<dots> \<le> 256 ^ 4" unfolding lbs using r(2) by (rule power_increasing) simp
    finally have "m < 256 ^ 4" .
    then have "length v < 2 ^ 32" unfolding lv by simp
    moreover have e: "elem = der_tlv t v"
      by (simp add: der_tlv_def lv dl r(7) hv)
    moreover have "cbs = der_tlv t v @ rest"
      using cbs hh by (simp add: der_tlv_def lv dl)
    moreover have "drop hl elem = v"
      by (simp add: e der_tlv_def lv dl r(8) lbs)
    ultimately show ?thesis unfolding t_def by blast
  qed
qed


lemma ReadTag_der_tlv:
  assumes "t AND 0x1f \<noteq> 0x1f" and "length v < 2 ^ 32"
  shows "ReadTag tag (der_tlv t v @ rest) =
    (if MkTag (t AND 0xe0) (unat (t AND 0x1f)) = tag then Some (v, rest) else None)"
proof -
  have "drop (Suc (length (der_length (length v)))) (der_tlv t v) = v"
    by (simp add: der_tlv_def)
  then show ?thesis
    by (simp add: ReadTag_def PeekTagAndValue_def element_der_tlv[OF assms])
qed

lemma ReadRawTLV_der_tlv:
  assumes "t AND 0x1f \<noteq> 0x1f" and "length v < 2 ^ 32"
  shows "ReadRawTLV (der_tlv t v @ rest) = Some (der_tlv t v, rest)"
  by (simp add: ReadRawTLV_def element_der_tlv[OF assms])

lemma ReadTag_inv:
  assumes "ReadTag (MkTag c n) p = Some (v, rest)" and "n < 0x1f"
  shows "length v < 2 ^ 32 \<and> p = der_tlv (c OR of_nat n) v @ rest"
proof -
  from assms(1) obtain elem hl r where
    el: "CBS_get_any_asn1_element p = Some (elem, MkTag c n, hl, r)"
    and v: "v = drop hl elem" and rest: "rest = drop (length elem) p"
    by (auto simp: ReadTag_def PeekTagAndValue_def split: option.splits if_splits)
  from element_low_tag_inv[OF el assms(2)] obtain w where
    w: "length w < 2 ^ 32" "p = der_tlv (c OR of_nat n) w @ r"
       "elem = der_tlv (c OR of_nat n) w" "drop hl elem = w"
    by blast
  from w(2,3) rest have "rest = r" by simp
  with w v show ?thesis by simp
qed

lemma ReadRawTLV_inv:
  assumes "ReadRawTLV p = Some (raw, rest)"
  shows "p = raw @ rest"
  using assms
  by (auto simp: ReadRawTLV_def CBS_get_any_asn1_element_def Let_def
      split: option.splits list.splits if_splits)

lemma ReadSequence_der_tlv:
  "length v < 2 ^ 32 \<Longrightarrow> ReadSequence (der_tlv 0x30 v @ rest) = Some (v, rest)"
  by (simp add: ReadSequence_def ReadConstructed_def IsConstructed_def kSequence_def
      ReadTag_der_tlv)

lemma ReadSequence_inv:
  "ReadSequence p = Some (v, rest) \<Longrightarrow> length v < 2 ^ 32 \<and> p = der_tlv 0x30 v @ rest"
  using ReadTag_inv[of "0x20" "0x10" p v rest]
  by (simp add: ReadSequence_def ReadConstructed_def kSequence_def split: if_splits)

lemma ReadTag_kOid_der_tlv:
  "length v < 2 ^ 32 \<Longrightarrow> ReadTag kOid (der_tlv 0x06 v @ rest) = Some (v, rest)"
  by (simp add: kOid_def ReadTag_der_tlv)

lemma ReadTag_kOid_inv:
  "ReadTag kOid p = Some (v, rest) \<Longrightarrow> length v < 2 ^ 32 \<and> p = der_tlv 0x06 v @ rest"
  using ReadTag_inv[of 0 "0x06" p v rest] by (simp add: kOid_def)

lemma ReadTag_kNull_inv:
  "ReadTag kNull p = Some (v, rest) \<Longrightarrow> p = der_tlv 0x05 v @ rest"
  using ReadTag_inv[of 0 "0x05" p v rest] by (simp add: kNull_def)

lemma ReadTag_kInteger_der_tlv:
  "length v < 2 ^ 32 \<Longrightarrow> ReadTag kInteger (der_tlv 0x02 v @ rest) = Some (v, rest)"
  by (simp add: kInteger_def ReadTag_der_tlv)

lemma ReadTag_kBitString_der_tlv:
  "length v < 2 ^ 32 \<Longrightarrow> ReadTag kBitString (der_tlv 0x03 v @ rest) = Some (v, rest)"
  by (simp add: kBitString_def ReadTag_der_tlv)

lemma ReadTag_kSequence_der_tlv:
  "length v < 2 ^ 32 \<Longrightarrow> ReadTag kSequence (der_tlv 0x30 v @ rest) = Some (v, rest)"
  by (simp add: kSequence_def ReadTag_der_tlv)

lemma der_tlv_not_Nil [simp]: "der_tlv t v \<noteq> []"
  by (simp add: der_tlv_def)


subsection \<open>The wrapped AlgorithmIdentifier\<close>

lemma HasMore_iff [simp]: "HasMore p \<longleftrightarrow> p \<noteq> []"
  by (simp add: HasMore_def)

lemma single_TLV_iff: "single_TLV p \<longleftrightarrow> ReadRawTLV p = Some (p, [])"
proof
  assume "single_TLV p"
  then obtain raw where r: "ReadRawTLV p = Some (raw, [])"
    by (auto simp: single_TLV_def ReadRawTLV_def split: option.splits)
  from ReadRawTLV_inv[OF r] r show "ReadRawTLV p = Some (p, [])" by simp
next
  assume "ReadRawTLV p = Some (p, [])"
  then show "single_TLV p"
    by (auto simp: single_TLV_def ReadRawTLV_def split: option.splits)
qed

lemma ParseAlgorithmIdentifier_accepts_iff:
  "ParseAlgorithmIdentifier input o0 p0 = (True, oid, params) \<longleftrightarrow>
   AlgorithmIdentifier_DER oid params input"
proof
  assume a: "ParseAlgorithmIdentifier input o0 p0 = (True, oid, params)"
  then obtain c where rs: "ReadSequence input = Some (c, [])"
    by (auto simp: ParseAlgorithmIdentifier_def split: option.splits if_splits)
  with a obtain aip where ro: "ReadTag kOid c = Some (oid, aip)"
    by (auto simp: ParseAlgorithmIdentifier_def split: option.splits if_splits)
  from ReadSequence_inv[OF rs] have i: "length c < 2 ^ 32" "input = der_tlv 0x30 c" by simp_all
  from ReadTag_kOid_inv[OF ro] have c: "length oid < 2 ^ 32" "c = der_tlv 0x06 oid @ aip"
    by simp_all
  have "aip = params \<and> (params = [] \<or> single_TLV params)"
  proof (cases "aip = []")
    case True
    with a rs ro show ?thesis by (simp add: ParseAlgorithmIdentifier_def)
  next
    case False
    with a rs ro have rr: "ReadRawTLV aip = Some (params, [])"
      by (auto simp: ParseAlgorithmIdentifier_def split: option.splits if_splits)
    from ReadRawTLV_inv[OF rr] have "aip = params" by simp
    with rr show ?thesis by (simp add: single_TLV_iff)
  qed
  with i c show "AlgorithmIdentifier_DER oid params input"
    by (simp add: AlgorithmIdentifier_DER_def serialize_AlgorithmIdentifier_def)
next
  assume "AlgorithmIdentifier_DER oid params input"
  then have i: "input = der_tlv 0x30 (der_tlv 0x06 oid @ params)"
    and lo: "length oid < 2 ^ 32" and lc: "length (der_tlv 0x06 oid @ params) < 2 ^ 32"
    and p: "params = [] \<or> single_TLV params"
    by (simp_all add: AlgorithmIdentifier_DER_def serialize_AlgorithmIdentifier_def)
  have rs: "ReadSequence input = Some (der_tlv 0x06 oid @ params, [])"
    using ReadSequence_der_tlv[OF lc, of "[]"] i by simp
  have ro: "ReadTag kOid (der_tlv 0x06 oid @ params) = Some (oid, params)"
    using lo by (rule ReadTag_kOid_der_tlv)
  from p show "ParseAlgorithmIdentifier input o0 p0 = (True, oid, params)"
  proof
    assume "params = []"
    with rs ro show ?thesis by (simp add: ParseAlgorithmIdentifier_def)
  next
    assume s: "single_TLV params"
    then have "ReadRawTLV params = Some (params, [])" by (simp add: single_TLV_iff)
    moreover from s have "params \<noteq> []"
      by (auto simp: single_TLV_def CBS_get_any_asn1_element_def parse_asn1_tag_def)
    ultimately show ?thesis using rs ro by (simp add: ParseAlgorithmIdentifier_def)
  qed
qed

subsection \<open>The record loop of the SCT extractor\<close>

lemma decode_parsed_scts_eq:
  "decode_parsed_scts ct ps result scts =
     (result \<and> (\<forall>p\<in>set ps. fst (DecodeSignedCertificateTimestamp ct p
                                   (new_SignedCertificateTimestamp ct))),
      scts @ map (\<lambda>p. snd (DecodeSignedCertificateTimestamp ct p
                              (new_SignedCertificateTimestamp ct))) ps)"
proof (induction ps arbitrary: result scts)
  case Nil
  show ?case by simp
next
  case (Cons p ps)
  show ?case
    by (cases "DecodeSignedCertificateTimestamp ct p (new_SignedCertificateTimestamp ct)")
      (auto simp: Cons.IH)
qed

text \<open>The definitions that evaluate the reader and the parsers on given bytes.\<close>

lemmas reader_eval =
  CBS_get_any_asn1_element_def parse_asn1_tag_def PeekTagAndValue_def ReadTag_def
  ReadRawTLV_def ReadConstructed_def ReadSequence_def IsConstructed_def
  kInteger_def kBitString_def kNull_def kOid_def kSequence_def be_val_def Let_def

lemmas writer_eval =
  der_tlv_def der_length_def serialize_AlgorithmIdentifier_def

section \<open>The claims\<close>

text \<open>
  C1. \<open>ExtractEmbeddedSCT\<close> returns false when the embedded-SCT extension is
  absent, when the SCT list does not decode, and when the list decodes to no entry.
  When the list decodes to at least one record, the result is true exactly when every
  record decodes, and the output collection is the given one followed by one entry for
  every record, in order, decoded or not.
\<close>

theorem ExtractEmbeddedSCT_aggregate:
  "(ExtractEmbeddedSCTList ct cert = None \<longrightarrow> \<not> fst (ExtractEmbeddedSCT ct cert scts)) \<and>
   (\<forall>l. ExtractEmbeddedSCTList ct cert = Some l \<and> DecodeSCTList ct l = None \<longrightarrow>
        \<not> fst (ExtractEmbeddedSCT ct cert scts)) \<and>
   (\<forall>l. ExtractEmbeddedSCTList ct cert = Some l \<and> DecodeSCTList ct l = Some [] \<longrightarrow>
        \<not> fst (ExtractEmbeddedSCT ct cert scts)) \<and>
   (\<forall>l ps. ExtractEmbeddedSCTList ct cert = Some l \<and> DecodeSCTList ct l = Some ps \<and> ps \<noteq> [] \<longrightarrow>
        (fst (ExtractEmbeddedSCT ct cert scts) \<longleftrightarrow>
           (\<forall>p\<in>set ps. fst (DecodeSignedCertificateTimestamp ct p
                                (new_SignedCertificateTimestamp ct)))) \<and>
        snd (ExtractEmbeddedSCT ct cert scts) =
           scts @ map (\<lambda>p. snd (DecodeSignedCertificateTimestamp ct p
                                   (new_SignedCertificateTimestamp ct))) ps)"
  by (simp add: ExtractEmbeddedSCT_def decode_parsed_scts_eq)

theorem ExtractEmbeddedSCT_aggregate_witness:
  "\<not> fst (ExtractEmbeddedSCT example_ct [] [7]) \<and>
   \<not> fst (ExtractEmbeddedSCT example_ct [0] [7]) \<and>
   \<not> fst (ExtractEmbeddedSCT example_ct [1] [7]) \<and>
   ExtractEmbeddedSCT example_ct [1, 2, 3] [7] = (True, [7, 2, 3]) \<and>
   ExtractEmbeddedSCT example_ct [1, 2, 0xff, 3] [7] = (False, [7, 2, 0, 3])"
  using ExtractEmbeddedSCT_aggregate[of example_ct "[]" "[7]"]
    ExtractEmbeddedSCT_aggregate[of example_ct "[0]" "[7]"]
    ExtractEmbeddedSCT_aggregate[of example_ct "[1]" "[7]"]
    ExtractEmbeddedSCT_aggregate[of example_ct "[1, 2, 3]" "[7]"]
    ExtractEmbeddedSCT_aggregate[of example_ct "[1, 2, 0xff, 3]" "[7]"]
  by (simp add: example_ct_def prod_eq_iff)

text \<open>
  C2. Let the input be exactly one OID TLV: the header \<open>0x06\<close> with a length the
  reader accepts, and the identifier's content. \<open>ParseAlgorithmSequence\<close> returns
  false on it, since no field follows the OID. \<open>ParseAlgorithmIdentifier\<close> accepts the
  SEQUENCE that wraps the same TLV and nothing else, and leaves the parameters empty.
\<close>

theorem OID_only_asymmetry:
  assumes "length oid < 2 ^ 32"
  shows "fst (ParseAlgorithmSequence (der_tlv 0x06 oid) o0 p0) = False \<and>
         (length (der_tlv 0x06 oid) < 2 ^ 32 \<longrightarrow>
          ParseAlgorithmIdentifier (der_tlv 0x30 (der_tlv 0x06 oid)) o0 p0 = (True, oid, []))"
proof
  have "ReadTag kOid (der_tlv 0x06 oid) = Some (oid, [])"
    using ReadTag_kOid_der_tlv[OF assms, of "[]"] by simp
  then show "fst (ParseAlgorithmSequence (der_tlv 0x06 oid) o0 p0) = False"
    by (simp add: ParseAlgorithmSequence_def)
next
  show "length (der_tlv 0x06 oid) < 2 ^ 32 \<longrightarrow>
      ParseAlgorithmIdentifier (der_tlv 0x30 (der_tlv 0x06 oid)) o0 p0 = (True, oid, [])"
  proof
    assume "length (der_tlv 0x06 oid) < 2 ^ 32"
    with assms have "AlgorithmIdentifier_DER oid [] (der_tlv 0x30 (der_tlv 0x06 oid))"
      by (simp add: AlgorithmIdentifier_DER_def serialize_AlgorithmIdentifier_def)
    then show "ParseAlgorithmIdentifier (der_tlv 0x30 (der_tlv 0x06 oid)) o0 p0 = (True, oid, [])"
      by (simp only: ParseAlgorithmIdentifier_accepts_iff)
  qed
qed

theorem OID_only_asymmetry_witness:
  "length [0x2a :: byte] < 2 ^ 32 \<and>
   fst (ParseAlgorithmSequence [0x06, 0x01, 0x2a] [] []) = False \<and>
   ParseAlgorithmIdentifier [0x30, 0x03, 0x06, 0x01, 0x2a] [] [] = (True, [0x2a], [])"
  using OID_only_asymmetry[of "[0x2a]" "[]" "[]"]
  by (simp add: writer_eval)

text \<open>
  C3. \<open>ParseAlgorithmIdentifier\<close> returns true with the spans \<open>oid\<close> and
  \<open>params\<close> exactly when the input is one DER SEQUENCE with nothing after it whose
  content is the OID TLV of \<open>oid\<close> followed by \<open>params\<close>, where \<open>params\<close> is
  either empty or exactly one raw TLV. So it returns true exactly on the inputs of this
  form; when no parameters are present the parameters span is empty; and on every other
  input it returns false.
\<close>

theorem ParseAlgorithmIdentifier_characterisation:
  "(ParseAlgorithmIdentifier input o0 p0 = (True, oid, params) \<longleftrightarrow>
      AlgorithmIdentifier_DER oid params input) \<and>
   (fst (ParseAlgorithmIdentifier input o0 p0) \<longleftrightarrow>
      (\<exists>oid params. AlgorithmIdentifier_DER oid params input))"
proof -
  have "fst (ParseAlgorithmIdentifier input o0 p0) \<longleftrightarrow>
      (\<exists>oid params. ParseAlgorithmIdentifier input o0 p0 = (True, oid, params))"
    by (cases "ParseAlgorithmIdentifier input o0 p0") auto
  then show ?thesis by (simp add: ParseAlgorithmIdentifier_accepts_iff)
qed

theorem ParseAlgorithmIdentifier_characterisation_witness:
  "ParseAlgorithmIdentifier [0x30, 0x05, 0x06, 0x01, 0x2a, 0x05, 0x00] [] [] =
     (True, [0x2a], [0x05, 0x00]) \<and>
   AlgorithmIdentifier_DER [0x2a] [0x05, 0x00] [0x30, 0x05, 0x06, 0x01, 0x2a, 0x05, 0x00] \<and>
   ParseAlgorithmIdentifier [0x30, 0x03, 0x06, 0x01, 0x2a] [0x01] [0x02] = (True, [0x2a], []) \<and>
   \<not> AlgorithmIdentifier_DER [0x2a] [0x05] [0x30, 0x04, 0x06, 0x01, 0x2a, 0x05] \<and>
   ParseAlgorithmIdentifier [0x30, 0x04, 0x06, 0x01, 0x2a, 0x05] [] [] \<noteq> (True, [0x2a], [0x05])"
  using ParseAlgorithmIdentifier_characterisation
      [of "[0x30, 0x05, 0x06, 0x01, 0x2a, 0x05, 0x00]" "[]" "[]" "[0x2a]" "[0x05, 0x00]"]
    ParseAlgorithmIdentifier_characterisation
      [of "[0x30, 0x03, 0x06, 0x01, 0x2a]" "[0x01]" "[0x02]" "[0x2a]" "[]"]
    ParseAlgorithmIdentifier_characterisation
      [of "[0x30, 0x04, 0x06, 0x01, 0x2a, 0x05]" "[]" "[]" "[0x2a]" "[0x05]"]
  by (simp add: AlgorithmIdentifier_DER_def single_TLV_def reader_eval writer_eval)

text \<open>
  C4. \<open>IsNull\<close> returns true exactly on the two bytes \<open>05 00\<close>: every other
  input is rejected, whether for its tag, for a non-empty content or for bytes after the
  NULL.
\<close>

theorem IsNull_exactly_05_00: "IsNull input \<longleftrightarrow> input = [0x05, 0x00]"
proof
  assume "IsNull input"
  then have "ReadTag kNull input = Some ([], [])"
    by (auto simp: IsNull_def split: option.splits if_splits)
  from ReadTag_kNull_inv[OF this] show "input = [0x05, 0x00]"
    by (simp add: der_tlv_def der_length_def)
next
  assume "input = [0x05, 0x00]"
  then show "IsNull input"
    by (simp add: IsNull_def reader_eval)
qed

theorem IsNull_exactly_05_00_witness:
  "IsNull [0x05, 0x00] \<and> \<not> IsNull [0x04, 0x00] \<and> \<not> IsNull [0x05, 0x01, 0x00] \<and>
   \<not> IsNull [0x05, 0x00, 0x00] \<and> \<not> IsNull [0x05, 0x81, 0x00] \<and> \<not> IsNull []"
  using IsNull_exactly_05_00[of "[0x05, 0x00]"] IsNull_exactly_05_00[of "[0x04, 0x00]"]
    IsNull_exactly_05_00[of "[0x05, 0x01, 0x00]"] IsNull_exactly_05_00[of "[0x05, 0x00, 0x00]"]
    IsNull_exactly_05_00[of "[0x05, 0x81, 0x00]"] IsNull_exactly_05_00[of "[]"]
  by simp

text \<open>
  C5. Bytes after the required fields, inside the SEQUENCE, do not make the two
  lenient parsers fail: a SEQUENCE holding an algorithm SEQUENCE, a BIT STRING and then
  any bytes \<open>extra\<close> is accepted by \<open>ParseSubjectPublicKeyInfo\<close>, and a SEQUENCE
  holding two INTEGERs and then any bytes is accepted by \<open>ParseRSAPublicKeyInfo\<close>; the
  out-parameters are the two fields. The bounds say that the lengths fit the reader's
  four length octets.
\<close>

theorem inner_trailing_bytes_tolerated:
  assumes "length alg < 2 ^ 32" and "length key < 2 ^ 32"
    and "length (der_tlv 0x30 alg @ der_tlv 0x03 key @ extra) < 2 ^ 32"
    and "length m < 2 ^ 32" and "length e < 2 ^ 32"
    and "length (der_tlv 0x02 m @ der_tlv 0x02 e @ extra') < 2 ^ 32"
  shows "ParseSubjectPublicKeyInfo
           (der_tlv 0x30 (der_tlv 0x30 alg @ der_tlv 0x03 key @ extra)) a0 k0 = (True, alg, key) \<and>
         ParseRSAPublicKeyInfo
           (der_tlv 0x30 (der_tlv 0x02 m @ der_tlv 0x02 e @ extra')) m0 e0 = (True, m, e)"
proof
  have "ReadSequence (der_tlv 0x30 (der_tlv 0x30 alg @ der_tlv 0x03 key @ extra)) =
      Some (der_tlv 0x30 alg @ der_tlv 0x03 key @ extra, [])"
    using ReadSequence_der_tlv[OF assms(3), of "[]"] by simp
  then show "ParseSubjectPublicKeyInfo
           (der_tlv 0x30 (der_tlv 0x30 alg @ der_tlv 0x03 key @ extra)) a0 k0 = (True, alg, key)"
    using assms(1,2)
    by (simp add: ParseSubjectPublicKeyInfo_def ReadTag_kSequence_der_tlv
        ReadTag_kBitString_der_tlv)
next
  have "ReadSequence (der_tlv 0x30 (der_tlv 0x02 m @ der_tlv 0x02 e @ extra')) =
      Some (der_tlv 0x02 m @ der_tlv 0x02 e @ extra', [])"
    using ReadSequence_der_tlv[OF assms(6), of "[]"] by simp
  then show "ParseRSAPublicKeyInfo
           (der_tlv 0x30 (der_tlv 0x02 m @ der_tlv 0x02 e @ extra')) m0 e0 = (True, m, e)"
    using assms(4,5)
    by (simp add: ParseRSAPublicKeyInfo_def ReadTag_kInteger_der_tlv)
qed

theorem inner_trailing_bytes_tolerated_witness:
  "ParseSubjectPublicKeyInfo
     [0x30, 0x0b, 0x30, 0x03, 0x06, 0x01, 0x2a, 0x03, 0x02, 0x00, 0x01, 0xde, 0xad] [] [] =
     (True, [0x06, 0x01, 0x2a], [0x00, 0x01]) \<and>
   ParseRSAPublicKeyInfo [0x30, 0x07, 0x02, 0x01, 0x05, 0x02, 0x01, 0x03, 0xff] [] [] =
     (True, [0x05], [0x03])"
  using inner_trailing_bytes_tolerated
    [of "[0x06, 0x01, 0x2a]" "[0x00, 0x01]" "[0xde, 0xad]" "[0x05]" "[0x03]" "[0xff]" "[]" "[]" "[]" "[]"]
  by (simp add: writer_eval)

text \<open>
  C6. For bytes the registry does not know (\<open>OBJ_cbs2nid\<close> gives
  \<open>NID_undef\<close>), \<open>OIDToNID\<close> returns false with \<open>-1\<close> stored, and
  \<open>NIDToAbsoluteOID\<close> returns the empty string. For the RSA-encryption bytes
  \<open>2A 86 48 86 F7 0D 01 01 01\<close>, in every registry that knows them and gives their
  object back, \<open>OIDToNID\<close> succeeds and \<open>NIDToAbsoluteOID\<close> returns
  \<open>1.2.840.113549.1.1.1\<close>.
\<close>

theorem OID_resolution:
  "(OBJ_cbs2nid reg input = NID_undef \<longrightarrow>
      OIDToNID reg input (Some n0) = (False, Some (- 1)) \<and> NIDToAbsoluteOID reg input = '''') \<and>
   (OBJ_cbs2nid reg rsaEncryption_oid \<noteq> NID_undef \<and>
    OBJ_nid2obj reg (OBJ_cbs2nid reg rsaEncryption_oid) = Some rsaEncryption_oid \<longrightarrow>
      OIDToNID reg rsaEncryption_oid (Some n0) = (True, Some (OBJ_cbs2nid reg rsaEncryption_oid)) \<and>
      NIDToAbsoluteOID reg rsaEncryption_oid = ''1.2.840.113549.1.1.1'')"
proof -
  have dotted: "CBS_asn1_oid_to_text rsaEncryption_oid = Some ''1.2.840.113549.1.1.1''"
    by (simp add: rsaEncryption_oid_def CBS_asn1_oid_to_text_def oid_components_to_text.simps
        add_decimal.simps)
  have "OBJ_obj2txt (replicate 128 NUL) 128 rsaEncryption_oid =
      (20, ''1.2.840.113549.1.1.1'' @ replicate 108 NUL)"
    unfolding OBJ_obj2txt_def dotted
    by (simp add: rsaEncryption_oid_def strlcpy_def Let_def flip: replicate_Suc)
  then have "NIDToAbsoluteOID reg rsaEncryption_oid = ''1.2.840.113549.1.1.1''"
    if "OBJ_cbs2nid reg rsaEncryption_oid \<noteq> NID_undef"
       "OBJ_nid2obj reg (OBJ_cbs2nid reg rsaEncryption_oid) = Some rsaEncryption_oid"
    using that by (simp add: NIDToAbsoluteOID_def OIDToNID_def resize_def)
  then show ?thesis
    by (simp add: OIDToNID_def NIDToAbsoluteOID_def)
qed

theorem OID_resolution_witness:
  "OIDToNID rsa_only_registry [0x01, 0x02, 0x03] (Some 0) = (False, Some (- 1)) \<and>
   NIDToAbsoluteOID rsa_only_registry [0x01, 0x02, 0x03] = '''' \<and>
   OIDToNID rsa_only_registry rsaEncryption_oid (Some 0) = (True, Some 6) \<and>
   NIDToAbsoluteOID rsa_only_registry rsaEncryption_oid = ''1.2.840.113549.1.1.1''"
  using OID_resolution[of rsa_only_registry "[0x01, 0x02, 0x03]" 0]
  by (simp add: rsa_only_registry_def rsaEncryption_oid_def NID_undef_def)

text \<open>
  C7. Round trip. Every valid DER encoding of an AlgorithmIdentifier, that is, every
  input that is the SEQUENCE of the OID TLV of \<open>oid\<close> followed by \<open>params\<close> (empty,
  or exactly one raw TLV), is accepted by \<open>ParseAlgorithmIdentifier\<close> with exactly the
  spans \<open>oid\<close> and \<open>params\<close>, and writing the returned OID span under an OID header,
  appending the returned parameters span and wrapping both in a SEQUENCE header gives
  the input back, byte for byte. Conversely, whatever the parser accepts is such an
  encoding of the spans it returns and round-trips in the same way.
\<close>

theorem ParseAlgorithmIdentifier_round_trip:
  "(AlgorithmIdentifier_DER oid params input \<longrightarrow>
      ParseAlgorithmIdentifier input o0 p0 = (True, oid, params) \<and>
      serialize_AlgorithmIdentifier
        (fst (snd (ParseAlgorithmIdentifier input o0 p0)))
        (snd (snd (ParseAlgorithmIdentifier input o0 p0))) = input) \<and>
   (fst (ParseAlgorithmIdentifier input o0 p0) \<longrightarrow>
      AlgorithmIdentifier_DER
        (fst (snd (ParseAlgorithmIdentifier input o0 p0)))
        (snd (snd (ParseAlgorithmIdentifier input o0 p0))) input \<and>
      serialize_AlgorithmIdentifier
        (fst (snd (ParseAlgorithmIdentifier input o0 p0)))
        (snd (snd (ParseAlgorithmIdentifier input o0 p0))) = input)"
proof (intro conjI impI)
  assume v: "AlgorithmIdentifier_DER oid params input"
  then show p: "ParseAlgorithmIdentifier input o0 p0 = (True, oid, params)"
    by (simp only: ParseAlgorithmIdentifier_accepts_iff)
  from v have "serialize_AlgorithmIdentifier oid params = input"
    by (simp add: AlgorithmIdentifier_DER_def)
  with p show "serialize_AlgorithmIdentifier
        (fst (snd (ParseAlgorithmIdentifier input o0 p0)))
        (snd (snd (ParseAlgorithmIdentifier input o0 p0))) = input"
    by simp
next
  assume "fst (ParseAlgorithmIdentifier input o0 p0)"
  then obtain oid' params' where
    p: "ParseAlgorithmIdentifier input o0 p0 = (True, oid', params')"
    by (cases "ParseAlgorithmIdentifier input o0 p0") auto
  then have v: "AlgorithmIdentifier_DER oid' params' input"
    by (simp only: ParseAlgorithmIdentifier_accepts_iff)
  with p show "AlgorithmIdentifier_DER
        (fst (snd (ParseAlgorithmIdentifier input o0 p0)))
        (snd (snd (ParseAlgorithmIdentifier input o0 p0))) input"
    by simp
  from v have "serialize_AlgorithmIdentifier oid' params' = input"
    by (simp add: AlgorithmIdentifier_DER_def)
  with p show "serialize_AlgorithmIdentifier
        (fst (snd (ParseAlgorithmIdentifier input o0 p0)))
        (snd (snd (ParseAlgorithmIdentifier input o0 p0))) = input"
    by simp
qed

theorem ParseAlgorithmIdentifier_round_trip_witness:
  "AlgorithmIdentifier_DER rsaEncryption_oid [0x05, 0x00]
     [0x30, 0x0d, 0x06, 0x09, 0x2A, 0x86, 0x48, 0x86, 0xF7, 0x0D, 0x01, 0x01, 0x01, 0x05, 0x00] \<and>
   ParseAlgorithmIdentifier
     [0x30, 0x0d, 0x06, 0x09, 0x2A, 0x86, 0x48, 0x86, 0xF7, 0x0D, 0x01, 0x01, 0x01, 0x05, 0x00] [] [] =
     (True, rsaEncryption_oid, [0x05, 0x00]) \<and>
   serialize_AlgorithmIdentifier
     (fst (snd (ParseAlgorithmIdentifier
        [0x30, 0x0d, 0x06, 0x09, 0x2A, 0x86, 0x48, 0x86, 0xF7, 0x0D, 0x01, 0x01, 0x01, 0x05, 0x00] [] [])))
     (snd (snd (ParseAlgorithmIdentifier
        [0x30, 0x0d, 0x06, 0x09, 0x2A, 0x86, 0x48, 0x86, 0xF7, 0x0D, 0x01, 0x01, 0x01, 0x05, 0x00] [] []))) =
     [0x30, 0x0d, 0x06, 0x09, 0x2A, 0x86, 0x48, 0x86, 0xF7, 0x0D, 0x01, 0x01, 0x01, 0x05, 0x00] \<and>
   AlgorithmIdentifier_DER [0x2a] [] [0x30, 0x03, 0x06, 0x01, 0x2a] \<and>
   ParseAlgorithmIdentifier [0x30, 0x03, 0x06, 0x01, 0x2a] [] [] = (True, [0x2a], []) \<and>
   serialize_AlgorithmIdentifier
     (fst (snd (ParseAlgorithmIdentifier [0x30, 0x03, 0x06, 0x01, 0x2a] [] [])))
     (snd (snd (ParseAlgorithmIdentifier [0x30, 0x03, 0x06, 0x01, 0x2a] [] []))) =
     [0x30, 0x03, 0x06, 0x01, 0x2a]"
proof -
  have a: "AlgorithmIdentifier_DER rsaEncryption_oid [0x05, 0x00]
     [0x30, 0x0d, 0x06, 0x09, 0x2A, 0x86, 0x48, 0x86, 0xF7, 0x0D, 0x01, 0x01, 0x01, 0x05, 0x00]"
    by (simp add: AlgorithmIdentifier_DER_def single_TLV_def rsaEncryption_oid_def
        reader_eval writer_eval)
  have b: "AlgorithmIdentifier_DER [0x2a] [] [0x30, 0x03, 0x06, 0x01, 0x2a]"
    by (simp add: AlgorithmIdentifier_DER_def writer_eval)
  note r1 = ParseAlgorithmIdentifier_round_trip[of rsaEncryption_oid "[0x05, 0x00]"
      "[0x30, 0x0d, 0x06, 0x09, 0x2A, 0x86, 0x48, 0x86, 0xF7, 0x0D, 0x01, 0x01, 0x01, 0x05, 0x00]"
      "[]" "[]", THEN conjunct1, rule_format, OF a]
  note r2 = ParseAlgorithmIdentifier_round_trip[of "[0x2a]" "[]" "[0x30, 0x03, 0x06, 0x01, 0x2a]" "[]" "[]",
      THEN conjunct1, rule_format, OF b]
  from a b r1 r2 show ?thesis by blast
qed

text \<open>
  \<open>generalized_time_to_time\<close> has no failure result and never reads the primitive's
  flag: it returns the value the primitive leaves in a default-constructed time.
\<close>

lemma generalized_time_to_time_stored:
  "generalized_time_to_time GeneralizedTimeToTime generalized_time =
     snd (GeneralizedTimeToTime generalized_time 0)"
  by (simp add: generalized_time_to_time_def split_beta)

text \<open>
  C9. Bytes after the outer SEQUENCE are never looked at by the two lenient parsers:
  for every SEQUENCE content \<open>c\<close>, \<open>ParseSubjectPublicKeyInfo\<close> and
  \<open>ParseRSAPublicKeyInfo\<close> return the same with and without bytes \<open>extra\<close> after the
  SEQUENCE, so a SEQUENCE holding the required fields is accepted whatever follows it.
  \<open>ParseAlgorithmIdentifier\<close> rejects every SEQUENCE followed by at least one
  byte.
\<close>

theorem outer_trailing_bytes:
  assumes "length c < 2 ^ 32"
    and "length alg < 2 ^ 32" and "length key < 2 ^ 32"
    and "length (der_tlv 0x30 alg @ der_tlv 0x03 key) < 2 ^ 32"
    and "length m < 2 ^ 32" and "length e < 2 ^ 32"
    and "length (der_tlv 0x02 m @ der_tlv 0x02 e) < 2 ^ 32"
  shows "ParseSubjectPublicKeyInfo (der_tlv 0x30 c @ extra) a0 k0 =
           ParseSubjectPublicKeyInfo (der_tlv 0x30 c) a0 k0 \<and>
         ParseRSAPublicKeyInfo (der_tlv 0x30 c @ extra) m0 e0 =
           ParseRSAPublicKeyInfo (der_tlv 0x30 c) m0 e0 \<and>
         ParseSubjectPublicKeyInfo
           (der_tlv 0x30 (der_tlv 0x30 alg @ der_tlv 0x03 key) @ extra) a0 k0 = (True, alg, key) \<and>
         ParseRSAPublicKeyInfo
           (der_tlv 0x30 (der_tlv 0x02 m @ der_tlv 0x02 e) @ extra) m0 e0 = (True, m, e) \<and>
         (extra \<noteq> [] \<longrightarrow> fst (ParseAlgorithmIdentifier (der_tlv 0x30 c @ extra) o0 p0) = False)"
proof -
  have rs: "ReadSequence (der_tlv 0x30 c @ extra) = Some (c, extra)"
    by (rule ReadSequence_der_tlv[OF assms(1)])
  have rs0: "ReadSequence (der_tlv 0x30 c) = Some (c, [])"
    using ReadSequence_der_tlv[OF assms(1), of "[]"] by simp
  have 1: "ParseSubjectPublicKeyInfo (der_tlv 0x30 c @ extra) a0 k0 =
           ParseSubjectPublicKeyInfo (der_tlv 0x30 c) a0 k0"
    by (simp add: ParseSubjectPublicKeyInfo_def rs rs0)
  have 2: "ParseRSAPublicKeyInfo (der_tlv 0x30 c @ extra) m0 e0 =
           ParseRSAPublicKeyInfo (der_tlv 0x30 c) m0 e0"
    by (simp add: ParseRSAPublicKeyInfo_def rs rs0)
  have "ReadSequence (der_tlv 0x30 (der_tlv 0x30 alg @ der_tlv 0x03 key) @ extra) =
      Some (der_tlv 0x30 alg @ der_tlv 0x03 key, extra)"
    by (rule ReadSequence_der_tlv[OF assms(4)])
  moreover have "ReadTag kBitString (der_tlv 0x03 key) = Some (key, [])"
    using ReadTag_kBitString_der_tlv[OF assms(3), of "[]"] by simp
  ultimately have 3: "ParseSubjectPublicKeyInfo
           (der_tlv 0x30 (der_tlv 0x30 alg @ der_tlv 0x03 key) @ extra) a0 k0 = (True, alg, key)"
    using assms(2)
    by (simp add: ParseSubjectPublicKeyInfo_def ReadTag_kSequence_der_tlv)
  have "ReadSequence (der_tlv 0x30 (der_tlv 0x02 m @ der_tlv 0x02 e) @ extra) =
      Some (der_tlv 0x02 m @ der_tlv 0x02 e, extra)"
    by (rule ReadSequence_der_tlv[OF assms(7)])
  moreover have "ReadTag kInteger (der_tlv 0x02 e) = Some (e, [])"
    using ReadTag_kInteger_der_tlv[OF assms(6), of "[]"] by simp
  ultimately have 4: "ParseRSAPublicKeyInfo
           (der_tlv 0x30 (der_tlv 0x02 m @ der_tlv 0x02 e) @ extra) m0 e0 = (True, m, e)"
    using assms(5)
    by (simp add: ParseRSAPublicKeyInfo_def ReadTag_kInteger_der_tlv)
  have 5: "extra \<noteq> [] \<longrightarrow> fst (ParseAlgorithmIdentifier (der_tlv 0x30 c @ extra) o0 p0) = False"
    by (simp add: ParseAlgorithmIdentifier_def rs)
  from 1 2 3 4 5 show ?thesis by blast
qed

theorem outer_trailing_bytes_witness:
  "ParseSubjectPublicKeyInfo
     [0x30, 0x09, 0x30, 0x03, 0x06, 0x01, 0x2a, 0x03, 0x02, 0x00, 0x01, 0xde, 0xad] [] [] =
     (True, [0x06, 0x01, 0x2a], [0x00, 0x01]) \<and>
   ParseRSAPublicKeyInfo [0x30, 0x06, 0x02, 0x01, 0x05, 0x02, 0x01, 0x03, 0xde, 0xad] [] [] =
     (True, [0x05], [0x03]) \<and>
   fst (ParseAlgorithmIdentifier [0x30, 0x03, 0x06, 0x01, 0x2a, 0xde, 0xad] [] []) = False \<and>
   ParseAlgorithmIdentifier [0x30, 0x03, 0x06, 0x01, 0x2a] [] [] = (True, [0x2a], [])"
proof -
  have "ParseAlgorithmIdentifier [0x30, 0x03, 0x06, 0x01, 0x2a] [] [] = (True, [0x2a], [])"
    by (simp add: ParseAlgorithmIdentifier_def reader_eval)
  then show ?thesis
    using outer_trailing_bytes
      [of "[0x06, 0x01, 0x2a]" "[0x06, 0x01, 0x2a]" "[0x00, 0x01]" "[0x05]" "[0x03]"
          "[0xde, 0xad]" "[]" "[]" "[]" "[]" "[]" "[]"]
    by (simp add: writer_eval)
qed

text \<open>
  C10. When the extension is present and its list decodes to at least one record,
  \<open>ExtractEmbeddedSCT\<close> appends exactly one entry per record, whatever the records'
  decoding gives: the output has as many new entries as the list has records, after
  the entries it held before. When the extension is absent, or the list does not decode
  or decodes to no record, the result is false and the output collection is
  unchanged.
\<close>

theorem ExtractEmbeddedSCT_appends_every_record:
  "(\<forall>l ps. ExtractEmbeddedSCTList ct cert = Some l \<and> DecodeSCTList ct l = Some ps \<and> ps \<noteq> [] \<longrightarrow>
        length (snd (ExtractEmbeddedSCT ct cert scts)) = length scts + length ps \<and>
        take (length scts) (snd (ExtractEmbeddedSCT ct cert scts)) = scts) \<and>
   (ExtractEmbeddedSCTList ct cert = None \<or>
    (\<exists>l. ExtractEmbeddedSCTList ct cert = Some l \<and>
         (DecodeSCTList ct l = None \<or> DecodeSCTList ct l = Some [])) \<longrightarrow>
        ExtractEmbeddedSCT ct cert scts = (False, scts))"
  by (auto simp: ExtractEmbeddedSCT_def decode_parsed_scts_eq)

theorem ExtractEmbeddedSCT_appends_every_record_witness:
  "length (snd (ExtractEmbeddedSCT example_ct [1, 2, 0xff, 3] [7])) = 4 \<and>
   \<not> fst (ExtractEmbeddedSCT example_ct [1, 2, 0xff, 3] [7]) \<and>
   take 1 (snd (ExtractEmbeddedSCT example_ct [1, 2, 0xff, 3] [7])) = [7] \<and>
   ExtractEmbeddedSCT example_ct [] [7] = (False, [7]) \<and>
   ExtractEmbeddedSCT example_ct [0] [7] = (False, [7]) \<and>
   ExtractEmbeddedSCT example_ct [1] [7] = (False, [7])"
  using ExtractEmbeddedSCT_appends_every_record[of example_ct "[1, 2, 0xff, 3]" "[7]"]
    ExtractEmbeddedSCT_appends_every_record[of example_ct "[]" "[7]"]
    ExtractEmbeddedSCT_appends_every_record[of example_ct "[0]" "[7]"]
    ExtractEmbeddedSCT_appends_every_record[of example_ct "[1]" "[7]"]
  by (simp add: example_ct_def ExtractEmbeddedSCT_def)

end
